theory Spec2Isabelle
  imports Main "HOL-Library.Sublist"
begin

unbundle bit_operations_syntax

section \<open>C strings\<close>

text \<open>
  A non-null \<open>char*\<close> is modelled by the bytes that stand before its terminating NUL, so the
  terminator itself is never an element of the list.  A \<open>char*\<close> that may be null is a
  \<open>string option\<close>, with \<open>None\<close> for the null pointer.
\<close>

definition NUL :: char where
  "NUL = CHR 0x00"

definition LF :: char where
  "LF = CHR 0x0A"

definition CR :: char where
  "CR = CHR 0x0D"

text \<open>\<open>s[i]\<close> for \<open>i \<le> strlen(s)\<close>: the byte at offset \<open>i\<close>, the terminator at offset \<open>strlen(s)\<close>.\<close>

definition c_at :: "string \<Rightarrow> nat \<Rightarrow> char" where
  "c_at s i = (if i < length s then s ! i else NUL)"

definition strlen :: "string \<Rightarrow> nat" where
  "strlen s = length s"

text \<open>
  \<open>strcmp\<close> and \<open>strncmp\<close> compare byte by byte as \<open>unsigned char\<close>; the C standard fixes only
  the sign of the result, which is what the model returns (\<open>-1\<close>, \<open>0\<close> or \<open>1\<close>).
\<close>

fun strcmp :: "string \<Rightarrow> string \<Rightarrow> int" where
  "strcmp [] [] = 0"
| "strcmp [] (c2 # s2) = - 1"
| "strcmp (c1 # s1) [] = 1"
| "strcmp (c1 # s1) (c2 # s2) =
     (if c1 = c2 then strcmp s1 s2
      else if (of_char c1 :: nat) < of_char c2 then - 1 else 1)"

fun strncmp :: "string \<Rightarrow> string \<Rightarrow> nat \<Rightarrow> int" where
  "strncmp s1 s2 0 = 0"
| "strncmp [] [] (Suc n) = 0"
| "strncmp [] (c2 # s2) (Suc n) = - 1"
| "strncmp (c1 # s1) [] (Suc n) = 1"
| "strncmp (c1 # s1) (c2 # s2) (Suc n) =
     (if c1 = c2 then strncmp s1 s2 n
      else if (of_char c1 :: nat) < of_char c2 then - 1 else 1)"

text \<open>What goes wrong at run time: the process reads through a null pointer.\<close>

datatype fault =
    Null_string        \<comment> \<open>\<open>strlen\<close> or \<open>strncmp\<close> reads a null \<open>char*\<close> inside \<open>is_parent_path\<close>\<close>
  | Null_watch_root    \<comment> \<open>\<open>root->id\<close> or \<open>root->path\<close> with \<open>root == NULL\<close>\<close>

section \<open>util.cpp\<close>

subsection \<open>is_parent_path\<close>

text \<open>
  \<^verbatim>\<open>size_t parent_len = strlen(parent_path);
  return strncmp(parent_path, child_path, parent_len) == 0 &&
         (parent_len == strlen(child_path) || child_path[parent_len] == '/');\<close>
  \<open>strlen(parent_path)\<close> is evaluated first and faults on a null parent; a null child is read
  by \<open>strncmp\<close> or, when \<open>parent_len\<close> is 0, by \<open>strlen(child_path)\<close>.  The index
  \<open>child_path[parent_len]\<close> is only reached when \<open>strncmp\<close> returned 0, that is when the child
  has at least \<open>parent_len\<close> bytes, so it is a byte of the child or its terminator.
\<close>

definition is_parent_path :: "string option \<Rightarrow> string option \<Rightarrow> fault + bool" where
  "is_parent_path parent_path child_path =
     (case parent_path of
        None \<Rightarrow> Inl Null_string
      | Some parent \<Rightarrow>
          (case child_path of
             None \<Rightarrow> Inl Null_string
           | Some child \<Rightarrow>
               (let parent_len = strlen parent
                in Inr (strncmp parent child parent_len = 0 \<and>
                        (parent_len = strlen child \<or> c_at child parent_len = CHR ''/'')))))"

subsection \<open>read_line\<close>

definition INPUT_BUF_LEN :: nat where
  "INPUT_BUF_LEN = 2048"

text \<open>
  The C library's \<open>fgets(buf, n, stream)\<close>, on a stream given by the bytes still to be read:
  \<open>fgets_chars (n - 1) input\<close> stores at most \<open>n - 1\<close> bytes, stops after a line feed, and
  sets the end-of-file indicator when the stream ends before either.  The result is the bytes
  stored, the indicator, and the rest of the stream.
\<close>

fun fgets_chars :: "nat \<Rightarrow> string \<Rightarrow> string \<times> bool \<times> string" where
  "fgets_chars 0 input = ([], False, input)"
| "fgets_chars (Suc k) [] = ([], True, [])"
| "fgets_chars (Suc k) (c # input) =
     (if c = LF then ([c], False, input)
      else (case fgets_chars k input of (buf, eof, rest) \<Rightarrow> (c # buf, eof, rest)))"

text \<open>
  \<^verbatim>\<open>char* retval = fgets(input_buf, INPUT_BUF_LEN, stream);
  if (retval == NULL || feof(stream)) return NULL;
  int pos = strlen(input_buf) - 1;
  if (input_buf[pos] == '\n') input_buf[pos] = '\0';
  return input_buf;\<close>
  \<open>fgets\<close> returns null when it stored nothing.  The buffer is then read as a C string, which
  ends at the first NUL byte that came from the stream.  When that string is empty, \<open>pos\<close> is
  \<open>-1\<close> and the byte compared, \<open>input_buf[-1]\<close>, is the one stored before the buffer: whether
  or not it is a line feed, and is then overwritten, the pointer returned is \<open>input_buf\<close>, the
  empty string.  The result is the returned pointer (\<open>None\<close> for \<open>NULL\<close>) and the rest of the
  stream, on the right of the sum type that the callers' results have: \<open>read_line\<close> itself
  always returns.  The end-of-file indicator is the one this call of \<open>fgets\<close> sets: the
  process reads no further line after a \<open>NULL\<close>.
\<close>

definition read_line :: "string \<Rightarrow> fault + (string option \<times> string)" where
  "read_line stream =
     (case fgets_chars (INPUT_BUF_LEN - 1) stream of
        (buf, eof, rest) \<Rightarrow>
          if buf = [] \<or> eof then Inr (None, rest)
          else (let input_buf = takeWhile (\<lambda>c. c \<noteq> NUL) buf;
                    pos = int (strlen input_buf) - 1
                in if pos < 0 then Inr (Some input_buf, rest)
                   else if input_buf ! nat pos = LF
                   then Inr (Some (take (nat pos) input_buf), rest)
                   else Inr (Some input_buf, rest)))"

section \<open>main.cpp\<close>

text \<open>
  The daemon in normal mode (\<open>self_test\<close> false): \<open>userlog\<close> then writes to syslog only and
  is left out, and \<open>output\<close> always writes.  Allocation (\<open>new\<close>, \<open>malloc\<close>, \<open>strdup\<close>) is
  taken to succeed, so the \<open>CHECK_NULL\<close> returns are never taken.
\<close>

subsection \<open>Constants of the headers\<close>

definition ERR_IGNORE :: int where "ERR_IGNORE = - 1"
definition ERR_CONTINUE :: int where "ERR_CONTINUE = - 2"
definition ERR_ABORT :: int where "ERR_ABORT = - 3"
definition ERR_MISSING :: int where "ERR_MISSING = - 4"

text \<open>From \<open><mntent.h>\<close>.\<close>

definition MNTTYPE_IGNORE :: string where "MNTTYPE_IGNORE = ''ignore''"
definition MNTTYPE_NFS :: string where "MNTTYPE_NFS = ''nfs''"
definition MNTTYPE_SWAP :: string where "MNTTYPE_SWAP = ''swap''"

text \<open>From \<open><sys/inotify.h>\<close>.\<close>

definition IN_MODIFY :: int where "IN_MODIFY = 0x2"
definition IN_ATTRIB :: int where "IN_ATTRIB = 0x4"
definition IN_MOVED_FROM :: int where "IN_MOVED_FROM = 0x40"
definition IN_MOVED_TO :: int where "IN_MOVED_TO = 0x80"
definition IN_CREATE :: int where "IN_CREATE = 0x100"
definition IN_DELETE :: int where "IN_DELETE = 0x200"
definition IN_DELETE_SELF :: int where "IN_DELETE_SELF = 0x400"
definition IN_MOVE_SELF :: int where "IN_MOVE_SELF = 0x800"
definition IN_UNMOUNT :: int where "IN_UNMOUNT = 0x2000"

text \<open>\<^verbatim>\<open>#define UNFLATTEN(root) (root[0] == '|' ? root + 1 : root)\<close>\<close>

definition UNFLATTEN :: "string \<Rightarrow> string" where
  "UNFLATTEN root = (if c_at root 0 = CHR ''|'' then tl root else root)"

subsection \<open>The set of root paths\<close>

text \<open>
  \<open>set<char*, string_cmp>\<close> is the list of its elements in iteration order, which is the
  order of the comparator: \<open>lhs\<close> comes before \<open>rhs\<close> when \<open>strcmp(lhs, rhs) > 0\<close>.  Two keys are
  the same element when neither comes before the other.
\<close>

definition string_cmp :: "string \<Rightarrow> string \<Rightarrow> bool" where
  "string_cmp lhs rhs = (strcmp lhs rhs > 0)"

type_synonym path_set = "string list"

fun set_insert :: "string \<Rightarrow> path_set \<Rightarrow> path_set" where
  "set_insert key [] = [key]"
| "set_insert key (e # es) =
     (if string_cmp e key then e # set_insert key es
      else if string_cmp key e then key # e # es
      else e # es)"

definition set_find :: "path_set \<Rightarrow> string \<Rightarrow> bool" where
  "set_find s key = list_ex (\<lambda>e. \<not> string_cmp e key \<and> \<not> string_cmp key e) s"

text \<open>
  \<open>set_difference(s1, s2, diff)\<close> of fsnotifier.h, called with an empty \<open>diff\<close>: the elements
  of \<open>s2\<close> that \<open>s1\<close> does not hold.  None of the three pointers is null at its two call
  sites, so it returns true there.
\<close>

definition set_difference :: "path_set \<Rightarrow> path_set \<Rightarrow> path_set" where
  "set_difference s1 s2 =
     foldl (\<lambda>diff elem. if \<not> set_find s1 elem then set_insert elem diff else diff) [] s2"

subsection \<open>The state of the process and its surroundings\<close>

text \<open>The \<open>watch_root\<close> struct; \<open>path\<close> is a \<open>strdup\<close> result and so never null.\<close>

record watch_root =
  path :: string
  id' :: int

text \<open>
  The inotify engine (\<open>watch\<close>, \<open>unwatch\<close>) is not part of these sources.  The model keeps the
  calls made to it, oldest first; the second argument of \<open>watch\<close> is a pointer to a vector of
  \<open>char*\<close>.
\<close>

datatype call =
    Watch string "string option list option"
  | Unwatch int

text \<open>
  What the process reads from its surroundings during one operation: the entries
  \<open>(mnt_dir, mnt_type)\<close> of the mount table, \<open>None\<close> when \<open>setmntent\<close> fails; what \<open>watch\<close>
  returns, given the calls made so far and its arguments; whether \<open>stat\<close> succeeds on a path; and
  what the C library's \<open>vprintf\<close> writes for a null \<open>%s\<close> argument (the C standard leaves it
  open; glibc and musl write \<open>(null)\<close>).
\<close>

record env =
  mtab :: "(string \<times> string) list option"
  watch_result :: "call list \<Rightarrow> string \<Rightarrow> string option list option \<Rightarrow> int"
  stat_ok :: "string \<Rightarrow> bool"
  printf_null :: string

text \<open>
  The globals \<open>roots\<close> (a \<open>vector<watch_root*>\<close>, \<open>None\<close> for a null element) and
  \<open>roots_as_paths\<close>, the bytes written to standard output, and the engine calls made.
\<close>

record state =
  roots :: "watch_root option list"
  roots_as_paths :: path_set
  stdout :: string
  engine :: "call list"

text \<open>
  An operation either returns, with its value and the state it leaves, or the process faults,
  in the state reached at that point (standard output is flushed after every write).
\<close>

datatype 'a result =
    Ok 'a state
  | Crash fault state

text \<open>
  \<^verbatim>\<open>roots = new vector<watch_root*>(20);
  roots_as_paths = new set<char*, string_cmp>();\<close>
  The constructor \<open>vector(n)\<close> makes a vector of \<open>n\<close> value-initialised elements: \<open>n\<close> null
  pointers.
\<close>

definition init_state :: state where
  "init_state = \<lparr>roots = replicate 20 None, roots_as_paths = [], stdout = [], engine = []\<rparr>"

definition watch :: "env \<Rightarrow> string \<Rightarrow> string option list option \<Rightarrow> state \<Rightarrow> int \<times> state" where
  "watch e root mounts s =
     (watch_result e (engine s) root mounts, s\<lparr>engine := engine s @ [Watch root mounts]\<rparr>)"

definition unwatch :: "int \<Rightarrow> state \<Rightarrow> state" where
  "unwatch i s = s\<lparr>engine := engine s @ [Unwatch i]\<rparr>"

subsection \<open>Output\<close>

text \<open>\<open>output(text)\<close> with a format that holds no conversion.\<close>

definition output' :: "string \<Rightarrow> state \<Rightarrow> state" where
  "output' txt s = s\<lparr>stdout := stdout s @ txt\<rparr>"

text \<open>\<open>output("%s\n", arg)\<close>.\<close>

definition output_s :: "env \<Rightarrow> string option \<Rightarrow> state \<Rightarrow> state" where
  "output_s e arg s =
     output' ((case arg of None \<Rightarrow> printf_null e | Some str \<Rightarrow> str) @ [LF]) s"

text \<open>
  \<open>report_event\<close> overwrites every line feed of the path with NUL in a copy and writes the
  copy in its full length (\<open>fwrite\<close>) between the event name and a line feed.
  \<open>event_record\<close> is the text it writes.
\<close>

definition event_record :: "string \<Rightarrow> string \<Rightarrow> string" where
  "event_record event p = event @ [LF] @ map (\<lambda>c. if c = LF then NUL else c) p @ [LF]"

definition report_event :: "string \<Rightarrow> string \<Rightarrow> state \<Rightarrow> state" where
  "report_event event p s = s\<lparr>stdout := stdout s @ event_record event p\<rparr>"

subsection \<open>unwatchable_mounts\<close>

definition is_watchable :: "string \<Rightarrow> bool" where
  "is_watchable fs =
     (\<not> (strncmp fs ''dev'' 3 = 0 \<or> strcmp fs ''proc'' = 0 \<or> strcmp fs ''sysfs'' = 0 \<or>
          strcmp fs MNTTYPE_SWAP = 0 \<or>
          (strncmp fs ''fuse'' 4 = 0 \<and> strcmp fs ''fuseblk'' \<noteq> 0) \<or>
          strcmp fs ''cifs'' = 0 \<or> strcmp fs MNTTYPE_NFS = 0))"

text \<open>
  \<^verbatim>\<open>vector<char*> *mounts = new vector<char*>(20);
  while ((ent = getmntent(mtab)) != NULL)
    if (strcmp(ent->mnt_type, MNTTYPE_IGNORE) != 0 && !is_watchable(ent->mnt_type))
      mounts->push_back(strdup(ent->mnt_dir));\<close>
\<close>

definition unwatchable_mounts :: "env \<Rightarrow> string option list option" where
  "unwatchable_mounts e =
     (case mtab e of
        None \<Rightarrow> None
      | Some ents \<Rightarrow>
          Some (foldl (\<lambda>mounts (mnt_dir, mnt_type).
                         if strcmp mnt_type MNTTYPE_IGNORE \<noteq> 0 \<and> \<not> is_watchable mnt_type
                         then mounts @ [Some mnt_dir] else mounts)
                      (replicate 20 None) ents))"

subsection \<open>register_roots\<close>

text \<open>
  The loop over \<open>mounts\<close> for one root, from the element it stands at: it returns the \<open>skip\<close>
  flag and the vectors \<open>unwatchable\<close> and \<open>inner_mounts\<close> as the loop leaves them.
\<close>

fun mounts_loop ::
  "string \<Rightarrow> string option list \<Rightarrow> string option list \<Rightarrow> string option list \<Rightarrow>
     fault + (bool \<times> string option list \<times> string option list)" where
  "mounts_loop unflattened [] unwatchable inner_mounts = Inr (False, unwatchable, inner_mounts)"
| "mounts_loop unflattened (mount # mounts) unwatchable inner_mounts =
     (case is_parent_path mount (Some unflattened) of
        Inl f \<Rightarrow> Inl f
      | Inr True \<Rightarrow> Inr (True, unwatchable @ [Some unflattened], inner_mounts)
      | Inr False \<Rightarrow>
          (case is_parent_path (Some unflattened) mount of
             Inl f \<Rightarrow> Inl f
           | Inr True \<Rightarrow>
               mounts_loop unflattened mounts (unwatchable @ [mount]) (inner_mounts @ [mount])
           | Inr False \<Rightarrow> mounts_loop unflattened mounts unwatchable inner_mounts))"

text \<open>
  The loop over the set \<open>new_roots\<close> in iteration order.  The value returned is the function's
  \<open>bool\<close> and the \<open>unwatchable\<close> vector it has filled.
\<close>

fun register_roots ::
  "env \<Rightarrow> path_set \<Rightarrow> string option list \<Rightarrow> string option list \<Rightarrow> state \<Rightarrow>
     (bool \<times> string option list) result" where
  "register_roots e [] unwatchable mounts s = Ok (True, unwatchable) s"
| "register_roots e (new_root # new_roots) unwatchable mounts s =
     (let unflattened = UNFLATTEN new_root in
      if c_at unflattened 0 \<noteq> CHR ''/'' then register_roots e new_roots unwatchable mounts s
      else
        (case mounts_loop unflattened mounts unwatchable (replicate 5 None) of
           Inl f \<Rightarrow> Crash f s
         | Inr (skip, unwatchable1, inner_mounts) \<Rightarrow>
             if skip then register_roots e new_roots unwatchable1 mounts s
             else
               (case watch e new_root (Some inner_mounts) s of
                  (i, s1) \<Rightarrow>
                    if i \<ge> 0 \<or> i = ERR_MISSING
                    then register_roots e new_roots unwatchable1 mounts
                           (s1\<lparr>roots := roots s1 @ [Some \<lparr>path = new_root, id' = i\<rparr>]\<rparr>)
                    else if i = ERR_ABORT then Ok (False, unwatchable1) s1
                    else if i \<noteq> ERR_IGNORE
                    then register_roots e new_roots (unwatchable1 @ [Some unflattened]) mounts s1
                    else register_roots e new_roots unwatchable1 mounts s1)))"

subsection \<open>unregister_roots\<close>

text \<open>
  \<^verbatim>\<open>while (roots->size() > 0) {
    root = roots->back();
    roots->pop_back();
    if (to_remove->find(root->path) != to_remove->end()) {
      unwatch(root->id); free(root->path); free(root);
    }
    else temp->push_back(root);
  }\<close>
  The value returned is \<open>temp\<close>.
\<close>

function unregister_loop ::
  "path_set \<Rightarrow> watch_root option list \<Rightarrow> state \<Rightarrow> (watch_root option list) result" where
  "unregister_loop to_remove temp s =
     (if length (roots s) > 0 then
        (case last (roots s) of
           None \<Rightarrow> Crash Null_watch_root (s\<lparr>roots := butlast (roots s)\<rparr>)
         | Some root \<Rightarrow>
             if set_find to_remove (path root)
             then unregister_loop to_remove temp (unwatch (id' root) (s\<lparr>roots := butlast (roots s)\<rparr>))
             else unregister_loop to_remove (temp @ [Some root]) (s\<lparr>roots := butlast (roots s)\<rparr>))
      else Ok temp s)"
  by pat_completeness auto
termination
  by (relation "measure (\<lambda>(to_remove, temp, s). length (roots s))") (auto simp: unwatch_def)

declare unregister_loop.simps [simp del]

text \<open>
  \<^verbatim>\<open>for (int j = 0; j < tmp_array_size; j++) {
    roots->push_back(temp->back());
    temp->pop_back();
  }\<close>
\<close>

fun restore_loop :: "nat \<Rightarrow> watch_root option list \<Rightarrow> state \<Rightarrow> state" where
  "restore_loop 0 temp s = s"
| "restore_loop (Suc n) temp s = restore_loop n (butlast temp) (s\<lparr>roots := roots s @ [last temp]\<rparr>)"

text \<open>
  \<open>temp\<close> is constructed as \<open>new vector<watch_root*>(roots->size())\<close>, a vector of that many
  null pointers.
\<close>

definition unregister_roots :: "path_set \<Rightarrow> state \<Rightarrow> unit result" where
  "unregister_roots to_remove s =
     (if length to_remove = 0 then Ok () s
      else
        (case unregister_loop to_remove (replicate (length (roots s)) None) s of
           Crash f s1 \<Rightarrow> Crash f s1
         | Ok temp s1 \<Rightarrow> Ok () (restore_loop (length temp) temp s1)))"

subsection \<open>update_roots\<close>

text \<open>The loop that writes the \<open>unwatchable\<close> vector, one \<open>output("%s\n", s)\<close> per element.\<close>

definition output_unwatchable :: "env \<Rightarrow> string option list \<Rightarrow> state \<Rightarrow> state" where
  "output_unwatchable e unwatchable s = foldl (\<lambda>s1 arg. output_s e arg s1) s unwatchable"

definition update_roots :: "env \<Rightarrow> path_set \<Rightarrow> state \<Rightarrow> bool result" where
  "update_roots e new_roots s =
     (if length new_roots = 1 \<and> set_find new_roots ''/'' then
        (case unregister_roots (roots_as_paths s)
                (output' (''UNWATCHEABLE'' @ [LF] @ ''/'' @ [LF] @ ''#'' @ [LF]) s) of
           Crash f s1 \<Rightarrow> Crash f s1
         | Ok u s1 \<Rightarrow> Ok True (s1\<lparr>roots_as_paths := []\<rparr>))
      else
        (case unwatchable_mounts e of
           None \<Rightarrow> Ok False s
         | Some mounts \<Rightarrow>
             (let to_add = set_difference (roots_as_paths s) new_roots;
                  to_remove = set_difference new_roots (roots_as_paths s)
              in case register_roots e to_add (replicate 20 None) mounts s of
                   Crash f s1 \<Rightarrow> Crash f s1
                 | Ok (registered, unwatchable) s1 \<Rightarrow>
                     if \<not> registered then Ok False s1
                     else
                       (case unregister_roots to_remove s1 of
                          Crash f s2 \<Rightarrow> Crash f s2
                        | Ok u s2 \<Rightarrow>
                            Ok True
                              ((output' (''#'' @ [LF])
                                  (output_unwatchable e unwatchable
                                     (output' (''UNWATCHEABLE'' @ [LF]) s2)))
                               \<lparr>roots_as_paths := new_roots\<rparr>)))))"

subsection \<open>check_missing_roots and check_root_removal\<close>

text \<open>
  \<^verbatim>\<open>for (int i=0; i<roots->size(); i++) {
    watch_root* root = roots->at(i);
    if (root->id < 0) {
      char* unflattened = UNFLATTEN(root->path);
      if (stat(unflattened, &st) == 0) {
        root->id = watch(root->path, NULL);
        report_event("CREATE", unflattened);
        report_event("CHANGE", unflattened);
      }
    }
  }\<close>
  The loop from index \<open>i\<close> on.
\<close>

function check_missing_from :: "env \<Rightarrow> nat \<Rightarrow> state \<Rightarrow> unit result" where
  "check_missing_from e i s =
     (if i < length (roots s) then
        (case roots s ! i of
           None \<Rightarrow> Crash Null_watch_root s
         | Some root \<Rightarrow>
             if id' root < 0 then
               (let unflattened = UNFLATTEN (path root) in
                if stat_ok e unflattened then
                  (case watch e (path root) None s of
                     (new_id, s1) \<Rightarrow>
                       check_missing_from e (Suc i)
                         (report_event ''CHANGE'' unflattened
                            (report_event ''CREATE'' unflattened
                               (s1\<lparr>roots := (roots s1)[i := Some (root\<lparr>id' := new_id\<rparr>)]\<rparr>))))
                else check_missing_from e (Suc i) s)
             else check_missing_from e (Suc i) s)
      else Ok () s)"
  by pat_completeness auto
termination
  by (relation "measure (\<lambda>(e, i, s). length (roots s) - i)")
     (auto simp: watch_def report_event_def)

declare check_missing_from.simps [simp del]

definition check_missing_roots :: "env \<Rightarrow> state \<Rightarrow> unit result" where
  "check_missing_roots e s = check_missing_from e 0 s"

text \<open>
  \<^verbatim>\<open>for (int i=0; i<roots->size(); i++) {
    watch_root* root = roots->at(i);
    if (root->id >= 0 && strcmp(path, UNFLATTEN(root->path)) == 0) {
      unwatch(root->id);
      root->id = -1;
      report_event("DELETE", path);
    }
  }\<close>
\<close>

function check_root_removal_from :: "string \<Rightarrow> nat \<Rightarrow> state \<Rightarrow> unit result" where
  "check_root_removal_from p i s =
     (if i < length (roots s) then
        (case roots s ! i of
           None \<Rightarrow> Crash Null_watch_root s
         | Some root \<Rightarrow>
             if id' root \<ge> 0 \<and> strcmp p (UNFLATTEN (path root)) = 0 then
               check_root_removal_from p (Suc i)
                 (report_event ''DELETE'' p
                    ((unwatch (id' root) s)\<lparr>roots := (roots s)[i := Some (root\<lparr>id' := - 1\<rparr>)]\<rparr>))
             else check_root_removal_from p (Suc i) s)
      else Ok () s)"
  by pat_completeness auto
termination
  by (relation "measure (\<lambda>(p, i, s). length (roots s) - i)")
     (auto simp: unwatch_def report_event_def)

declare check_root_removal_from.simps [simp del]

definition check_root_removal :: "string \<Rightarrow> state \<Rightarrow> unit result" where
  "check_root_removal p s = check_root_removal_from p 0 s"

subsection \<open>inotify_callback\<close>

text \<open>
  The first chain of \<open>if\<close>s of \<open>inotify_callback\<close>, which reports the event, and then the
  second, which looks at the flags of the watched directory itself.
\<close>

definition event_reports :: "string \<Rightarrow> int \<Rightarrow> state \<Rightarrow> state" where
  "event_reports p event s =
     (if event AND (IN_CREATE OR IN_MOVED_TO) \<noteq> 0
      then report_event ''CHANGE'' p (report_event ''CREATE'' p s)
      else if event AND IN_MODIFY \<noteq> 0 then report_event ''CHANGE'' p s
      else if event AND IN_ATTRIB \<noteq> 0 then report_event ''STATS'' p s
      else if event AND (IN_DELETE OR IN_MOVED_FROM) \<noteq> 0 then report_event ''DELETE'' p s
      else s)"

definition inotify_callback :: "string \<Rightarrow> int \<Rightarrow> state \<Rightarrow> unit result" where
  "inotify_callback p event s =
     (if event AND (IN_DELETE_SELF OR IN_MOVE_SELF) \<noteq> 0
      then check_root_removal p (event_reports p event s)
      else if event AND IN_UNMOUNT \<noteq> 0
      then Ok () (output' (''RESET'' @ [LF]) (event_reports p event s))
      else Ok () (event_reports p event s))"

subsection \<open>read_input\<close>

text \<open>Every line that \<open>read_line\<close> returns takes at least one byte off the stream.\<close>

lemma fgets_chars_append: "fgets_chars k input = (buf, eof, rest) \<Longrightarrow> input = buf @ rest"
  by (induction k input arbitrary: buf eof rest rule: fgets_chars.induct)
     (auto split: if_splits prod.splits)

lemma read_line_consumes:
  "read_line stream = Inr (Some line, rest) \<Longrightarrow> length rest < length stream"
  by (auto simp: read_line_def Let_def split: prod.splits if_splits dest!: fgets_chars_append)

text \<open>
  The loop that reads the lines of a ROOTS command from standard input:
  \<^verbatim>\<open>line = read_line(stdin);
  if (line == NULL || strlen(line) == 0) return 0;
  else if (strcmp(line, "#") == 0) break;
  else {
    int l = strlen(line);
    if (l > 1 && line[l-1] == '/')  line[l-1] = '\0';
    new_roots->insert(strdup(line));
  }\<close>
  It gives \<open>None\<close> where \<open>read_input\<close> returns 0 from inside the loop, the set read where the
  loop ends at the \<open>#\<close> line, and with either the rest of the stream.
\<close>

function read_roots :: "string \<Rightarrow> path_set \<Rightarrow> fault + (path_set option \<times> string)" where
  "read_roots stream new_roots =
     (case read_line stream of
        Inl f \<Rightarrow> Inl f
      | Inr (None, rest) \<Rightarrow> Inr (None, rest)
      | Inr (Some line, rest) \<Rightarrow>
          if strlen line = 0 then Inr (None, rest)
          else if strcmp line ''#'' = 0 then Inr (Some new_roots, rest)
          else read_roots rest
                 (set_insert
                    (if strlen line > 1 \<and> line ! (strlen line - 1) = CHR ''/''
                     then take (strlen line - 1) line else line)
                    new_roots))"
  by pat_completeness auto
termination
  by (relation "measure (\<lambda>(stream, new_roots). length stream)")
     (auto dest: read_line_consumes)

declare read_roots.simps [simp del]

text \<open>
  \<open>read_input\<close> on the bytes still to come on standard input; the value returned is its
  \<open>int\<close> and the rest of the stream.
\<close>

definition read_input :: "env \<Rightarrow> string \<Rightarrow> state \<Rightarrow> (int \<times> string) result" where
  "read_input e stream s =
     (case read_line stream of
        Inl f \<Rightarrow> Crash f s
      | Inr (None, rest) \<Rightarrow> Ok (0, rest) s
      | Inr (Some line, rest) \<Rightarrow>
          if strcmp line ''EXIT'' = 0 then Ok (0, rest) s
          else if strcmp line ''ROOTS'' = 0 then
            (case read_roots rest [] of
               Inl f \<Rightarrow> Crash f s
             | Inr (None, rest1) \<Rightarrow> Ok (0, rest1) s
             | Inr (Some new_roots, rest1) \<Rightarrow>
                 (case update_roots e new_roots s of
                    Crash f s1 \<Rightarrow> Crash f s1
                  | Ok b s1 \<Rightarrow> Ok (if b then ERR_CONTINUE else ERR_ABORT, rest1) s1))
          else Ok (ERR_CONTINUE, rest) s)"

subsection \<open>The states the process reaches\<close>

text \<open>
  \<open>main\<close> starts from \<open>init_state\<close>; \<open>main_loop\<close> then runs, in any order, \<open>update_roots\<close> for a
  ROOTS command, \<open>check_missing_roots\<close> on an idle tick and \<open>inotify_callback\<close> for an event
  of the engine, each in the surroundings of that moment, and goes on after each one that
  returns.
\<close>

inductive reachable :: "state \<Rightarrow> bool" where
  start: "reachable init_state"
| update: "reachable s \<Longrightarrow> update_roots e new_roots s = Ok b s' \<Longrightarrow> reachable s'"
| tick: "reachable s \<Longrightarrow> check_missing_roots e s = Ok u s' \<Longrightarrow> reachable s'"
| event: "reachable s \<Longrightarrow> inotify_callback p ev s = Ok u s' \<Longrightarrow> reachable s'"

subsection \<open>Concrete surroundings and states\<close>

text \<open>
  Surroundings in which every path exists: \<open>plain_env\<close> with one unwatchable mount (\<open>/proc\<close>) and
  an engine that hands out the number of calls made so far as the next id; \<open>tmp_env\<close> with no
  unwatchable mount at all; \<open>nfs_env\<close> with \<open>/proc\<close> and an NFS mount at \<open>/tmp/x/mnt\<close>.
  In \<open>absent_env\<close>, with the mount table of \<open>plain_env\<close>, no path exists: \<open>stat\<close> fails and
  \<open>watch\<close> returns \<open>ERR_MISSING\<close>.
\<close>

definition plain_env :: env where
  "plain_env = \<lparr>mtab = Some [(''/'', ''ext4''), (''/proc'', ''proc''), (''/tmp'', ''tmpfs'')],
                watch_result = (\<lambda>log root mounts. int (length log)),
                stat_ok = (\<lambda>p. True), printf_null = ''(null)''\<rparr>"

definition tmp_env :: env where
  "tmp_env = \<lparr>mtab = Some [(''/'', ''ext4''), (''/tmp'', ''tmpfs'')],
              watch_result = (\<lambda>log root mounts. 0),
              stat_ok = (\<lambda>p. True), printf_null = ''(null)''\<rparr>"

definition nfs_env :: env where
  "nfs_env = \<lparr>mtab = Some [(''/'', ''ext4''), (''/proc'', ''proc''), (''/tmp/x/mnt'', ''nfs'')],
              watch_result = (\<lambda>log root mounts. int (length log)),
              stat_ok = (\<lambda>p. True), printf_null = ''(null)''\<rparr>"


text \<open>
  The state after the command \<open>ROOTS\<close>, \<open>/\<close>, \<open>#\<close> and the state after the command \<open>ROOTS\<close>,
  \<open>build\<close>, \<open>#\<close>, each sent first to a fresh process.
\<close>

definition refused_state :: state where
  "refused_state = init_state\<lparr>stdout := ''UNWATCHEABLE\<newline>/\<newline>#\<newline>''\<rparr>"

definition relative_root_state :: state where
  "relative_root_state =
     \<lparr>roots = replicate 20 None, roots_as_paths = [''build''],
      stdout = ''UNWATCHEABLE'' @ [LF] @ concat (replicate 20 (''(null)'' @ [LF])) @ ''#'' @ [LF],
      engine = []\<rparr>"

text \<open>A state whose \<open>roots\<close> vector holds a null element between two watch roots.\<close>

definition null_between_state :: state where
  "null_between_state =
     \<lparr>roots = [Some \<lparr>path = ''/tmp/y'', id' = 0\<rparr>, None, Some \<lparr>path = ''/tmp/x'', id' = ERR_MISSING\<rparr>],
      roots_as_paths = [''/tmp/y'', ''/tmp/x''], stdout = [], engine = []\<rparr>"

section \<open>Properties of util.cpp\<close>

lemma strncmp_zero_iff: "strncmp s1 s2 n = 0 \<longleftrightarrow> take n s1 = take n s2"
  by (induction s1 s2 n rule: strncmp.induct) auto

lemma strcmp_zero_iff: "strcmp s1 s2 = 0 \<longleftrightarrow> s1 = s2"
  by (induction s1 s2 rule: strcmp.induct) auto

lemma take_length_eq_prefix: "take (length p) c = p \<longleftrightarrow> prefix p c"
  by (metis append_eq_conv_conj prefix_def)

lemma prefix_slash_iff:
  "prefix (p @ ''/'') c \<longleftrightarrow> prefix p c \<and> length p < length c \<and> c ! length p = CHR ''/''"
proof
  assume "prefix (p @ ''/'') c"
  then obtain r where "c = p @ ''/'' @ r"
    by (auto simp: prefix_def)
  then show "prefix p c \<and> length p < length c \<and> c ! length p = CHR ''/''"
    by (simp add: nth_append)
next
  assume a: "prefix p c \<and> length p < length c \<and> c ! length p = CHR ''/''"
  then obtain r where c: "c = p @ r"
    by (auto simp: prefix_def)
  with a have "r \<noteq> []" and "r ! 0 = CHR ''/''"
    by (auto simp: nth_append)
  then obtain r' where "r = CHR ''/'' # r'"
    by (cases r) auto
  with c show "prefix (p @ ''/'') c"
    by simp
qed

lemma is_parent_path_Some:
  "is_parent_path (Some p) (Some c) = Inr (c = p \<or> prefix (p @ ''/'') c)"
proof -
  have "(take (length p) p = take (length p) c \<and>
          (length p = length c \<or> c_at c (length p) = CHR ''/'')) \<longleftrightarrow>
        (c = p \<or> prefix (p @ ''/'') c)"
  proof (cases "length p < length c")
    case True
    then have "c \<noteq> p" by auto
    with True show ?thesis
      using take_length_eq_prefix [of p c] prefix_slash_iff [of p c]
      by (auto simp: c_at_def)
  next
    case False
    then have "\<not> prefix (p @ ''/'') c"
      by (auto simp: prefix_def)
    moreover have "c_at c (length p) \<noteq> CHR ''/''"
      using False by (simp add: c_at_def NUL_def)
    moreover have "take (length p) p = take (length p) c \<and> length p = length c \<longleftrightarrow> c = p"
      by auto
    ultimately show ?thesis by auto
  qed
  then show ?thesis
    by (simp add: is_parent_path_def strlen_def strncmp_zero_iff)
qed

lemma fgets_chars_line:
  "LF \<notin> set l \<Longrightarrow> length l < k \<Longrightarrow> fgets_chars k (l @ LF # rest) = (l @ [LF], False, rest)"
proof (induction l arbitrary: k)
  case Nil
  then show ?case by (cases k) auto
next
  case (Cons c l)
  then show ?case by (cases k) auto
qed

lemma fgets_chars_eof:
  "LF \<notin> set l \<Longrightarrow> length l < k \<Longrightarrow> fgets_chars k l = (l, True, [])"
proof (induction l arbitrary: k)
  case Nil
  then show ?case by (cases k) auto
next
  case (Cons c l)
  then show ?case by (cases k) auto
qed

lemma read_line_line:
  assumes "LF \<notin> set l" "NUL \<notin> set l" "length l + 2 \<le> INPUT_BUF_LEN"
  shows "read_line (l @ LF # rest) = Inr (Some l, rest)"
proof -
  have "fgets_chars (INPUT_BUF_LEN - 1) (l @ LF # rest) = (l @ [LF], False, rest)"
    using assms by (intro fgets_chars_line) auto
  moreover have "takeWhile (\<lambda>c. c \<noteq> NUL) (l @ [LF]) = l @ [LF]"
    using assms(2) by (auto simp: takeWhile_eq_all_conv NUL_def LF_def)
  ultimately show ?thesis
    by (simp add: read_line_def strlen_def nth_append)
qed

lemma read_line_unterminated:
  assumes "LF \<notin> set l" "length l + 2 \<le> INPUT_BUF_LEN"
  shows "read_line l = Inr (None, [])"
proof -
  have "fgets_chars (INPUT_BUF_LEN - 1) l = (l, True, [])"
    using assms by (intro fgets_chars_eof) auto
  then show ?thesis
    by (simp add: read_line_def)
qed

section \<open>Properties of main.cpp\<close>

subsection \<open>The set of root paths and the mount vector\<close>

lemma strcmp_antisym: "strcmp a b \<le> 0 \<Longrightarrow> strcmp b a \<le> 0 \<Longrightarrow> a = b"
  by (induction a b rule: strcmp.induct) (auto split: if_splits)

lemma strcmp_refl: "strcmp a a = 0"
  by (simp add: strcmp_zero_iff)

lemma set_find_iff: "set_find s key \<longleftrightarrow> key \<in> set s"
proof
  assume "set_find s key"
  then show "key \<in> set s"
    by (auto simp: set_find_def list_ex_iff string_cmp_def not_less dest: strcmp_antisym)
next
  assume "key \<in> set s"
  then show "set_find s key"
    by (auto simp: set_find_def list_ex_iff string_cmp_def strcmp_refl intro!: bexI [where x = key])
qed

lemma set_difference_foldl:
  "set s2 \<subseteq> set s1 \<Longrightarrow>
   foldl (\<lambda>diff elem. if \<not> set_find s1 elem then set_insert elem diff else diff) d s2 = d"
  by (induction s2 arbitrary: d) (auto simp: set_find_iff)

lemma set_difference_subset: "set s2 \<subseteq> set s1 \<Longrightarrow> set_difference s1 s2 = []"
  by (simp add: set_difference_def set_difference_foldl)

lemma set_insert_set: "set (set_insert k s) = insert k (set s)"
  by (induction s) (auto simp: string_cmp_def not_less dest: strcmp_antisym)

lemma set_difference_foldl_set:
  "set (foldl (\<lambda>diff elem. if \<not> set_find s1 elem then set_insert elem diff else diff) d s2)
     = set d \<union> (set s2 - set s1)"
  by (induction s2 arbitrary: d) (auto simp: set_find_iff set_insert_set)

lemma set_difference_set: "set (set_difference s1 s2) = set s2 - set s1"
  by (simp add: set_difference_def set_difference_foldl_set)

lemma unwatchable_foldl:
  "foldl (\<lambda>mounts (mnt_dir, mnt_type).
            if strcmp mnt_type MNTTYPE_IGNORE \<noteq> 0 \<and> \<not> is_watchable mnt_type
            then mounts @ [Some mnt_dir] else mounts) acc ents
   = acc @ map Some (map fst
             (filter (\<lambda>(d, t). strcmp t MNTTYPE_IGNORE \<noteq> 0 \<and> \<not> is_watchable t) ents))"
  by (induction ents arbitrary: acc) (auto split: prod.splits)

lemma unwatchable_mounts_eq:
  "unwatchable_mounts e =
     (case mtab e of
        None \<Rightarrow> None
      | Some ents \<Rightarrow>
          Some (replicate 20 None @ map Some (map fst
            (filter (\<lambda>(d, t). strcmp t MNTTYPE_IGNORE \<noteq> 0 \<and> \<not> is_watchable t) ents))))"
  by (simp add: unwatchable_mounts_def unwatchable_foldl split: option.splits)

lemma replicate_20: "replicate 20 x = x # replicate 19 x"
  by (simp add: numeral_eq_Suc)

lemma unwatchable_mounts_Cons:
  "unwatchable_mounts e = Some mounts \<Longrightarrow> \<exists>ms. mounts = None # ms"
  by (auto simp: unwatchable_mounts_eq replicate_20 split: option.splits)

lemma mounts_loop_null: "mounts_loop u (None # ms) unw inner = Inl Null_string"
  by (simp add: is_parent_path_def)

lemma register_roots_null_valid:
  "\<exists>r \<in> set to_add. c_at (UNFLATTEN r) 0 = CHR ''/'' \<Longrightarrow>
   register_roots e to_add unw (None # ms) s = Crash Null_string s"
  by (induction to_add) (auto simp: is_parent_path_def Let_def)

lemma register_roots_null_invalid:
  "\<forall>r \<in> set to_add. c_at (UNFLATTEN r) 0 \<noteq> CHR ''/'' \<Longrightarrow>
   register_roots e to_add unw mounts s = Ok (True, unw) s"
  by (induction to_add) (auto simp: Let_def)

subsection \<open>register_roots on a mount vector without null elements\<close>

text \<open>
  What the comparisons of \<open>register_roots\<close> do for one root with an absolute effective path
  when no element of \<open>mounts\<close> is null: a mount point equal to the effective path or above it
  makes the root unwatchable and skips \<open>watch\<close>; otherwise the mount points strictly under
  the effective path are reported and passed to \<open>watch\<close>, behind the five null elements that
  \<open>inner_mounts\<close> is constructed with.
\<close>

lemma mounts_loop_Some:
  "mounts_loop u (map Some ms) unw inner =
     (if \<exists>m \<in> set ms. u = m \<or> prefix (m @ ''/'') u
      then Inr (True,
             unw @ map Some (filter (\<lambda>m. prefix (u @ ''/'') m)
                     (takeWhile (\<lambda>m. \<not> (u = m \<or> prefix (m @ ''/'') u)) ms)) @ [Some u],
             inner @ map Some (filter (\<lambda>m. prefix (u @ ''/'') m)
                     (takeWhile (\<lambda>m. \<not> (u = m \<or> prefix (m @ ''/'') u)) ms)))
      else Inr (False,
             unw @ map Some (filter (\<lambda>m. prefix (u @ ''/'') m) ms),
             inner @ map Some (filter (\<lambda>m. prefix (u @ ''/'') m) ms)))"
  by (induction ms arbitrary: unw inner) (auto simp: is_parent_path_Some)

lemma register_one_root:
  assumes "c_at (UNFLATTEN new_root) 0 = CHR ''/''"
  shows "register_roots e [new_root] unw (map Some ms) s =
     (if \<exists>m \<in> set ms. UNFLATTEN new_root = m \<or> prefix (m @ ''/'') (UNFLATTEN new_root)
      then Ok (True,
             unw @ map Some (filter (\<lambda>m. prefix (UNFLATTEN new_root @ ''/'') m)
                     (takeWhile (\<lambda>m. \<not> (UNFLATTEN new_root = m \<or>
                                          prefix (m @ ''/'') (UNFLATTEN new_root))) ms))
                 @ [Some (UNFLATTEN new_root)]) s
      else
        (let inner = map Some (filter (\<lambda>m. prefix (UNFLATTEN new_root @ ''/'') m) ms);
             excludes = Some (replicate 5 None @ inner);
             i = watch_result e (engine s) new_root excludes;
             s1 = s\<lparr>engine := engine s @ [Watch new_root excludes]\<rparr>
         in if i \<ge> 0 \<or> i = ERR_MISSING
            then Ok (True, unw @ inner) (s1\<lparr>roots := roots s @ [Some \<lparr>path = new_root, id' = i\<rparr>]\<rparr>)
            else if i = ERR_ABORT then Ok (False, unw @ inner) s1
            else if i \<noteq> ERR_IGNORE then Ok (True, unw @ inner @ [Some (UNFLATTEN new_root)]) s1
            else Ok (True, unw @ inner) s1))"
  using assms by (simp add: mounts_loop_Some watch_def Let_def)

lemma register_one_root_example:
  "c_at (UNFLATTEN ''/tmp/x'') 0 = CHR ''/''
   \<and> register_roots nfs_env [''/tmp/x''] [] (map Some [''/proc'', ''/tmp/x/mnt'']) init_state =
       Ok (True, [Some ''/tmp/x/mnt''])
          (init_state\<lparr>engine := [Watch ''/tmp/x'' (Some (replicate 5 None @ [Some ''/tmp/x/mnt'']))],
                      roots := replicate 20 None @ [Some \<lparr>path = ''/tmp/x'', id' = 0\<rparr>]\<rparr>)
   \<and> c_at (UNFLATTEN ''/proc/self'') 0 = CHR ''/''
   \<and> register_roots nfs_env [''/proc/self''] [] (map Some [''/proc'', ''/tmp/x/mnt'']) init_state =
       Ok (True, [Some ''/proc/self'']) init_state"
proof -
  have v: "c_at (UNFLATTEN ''/tmp/x'') 0 = CHR ''/''" "c_at (UNFLATTEN ''/proc/self'') 0 = CHR ''/''"
    by (simp_all add: UNFLATTEN_def c_at_def)
  have u: "UNFLATTEN ''/tmp/x'' = ''/tmp/x''" "UNFLATTEN ''/proc/self'' = ''/proc/self''"
    by (simp_all add: UNFLATTEN_def c_at_def)
  from register_one_root [OF v(1), of nfs_env "[]" "[''/proc'', ''/tmp/x/mnt'']" init_state]
    register_one_root [OF v(2), of nfs_env "[]" "[''/proc'', ''/tmp/x/mnt'']" init_state] v
  show ?thesis
    by (simp add: u nfs_env_def init_state_def Let_def)
qed

subsection \<open>The loops over the roots vector\<close>

lemma unregister_loop_Nil: "roots s = [] \<Longrightarrow> unregister_loop tr temp s = Ok temp s"
  by (subst unregister_loop.simps) simp

lemma unregister_loop_snoc_None:
  "roots s = xs @ [None] \<Longrightarrow>
   unregister_loop tr temp s = Crash Null_watch_root (s\<lparr>roots := xs\<rparr>)"
  by (subst unregister_loop.simps) simp

lemma unregister_loop_snoc_Some:
  "roots s = xs @ [Some r] \<Longrightarrow>
   unregister_loop tr temp s =
     (if path r \<in> set tr then unregister_loop tr temp (unwatch (id' r) (s\<lparr>roots := xs\<rparr>))
      else unregister_loop tr (temp @ [Some r]) (s\<lparr>roots := xs\<rparr>))"
  by (subst unregister_loop.simps) (simp add: set_find_iff)

lemma unregister_loop_crash:
  "roots s = pre @ None # map Some rs \<Longrightarrow>
   unregister_loop tr temp s =
     Crash Null_watch_root
       (s\<lparr>roots := pre,
          engine := engine s @ map (\<lambda>r. Unwatch (id' r)) (filter (\<lambda>r. path r \<in> set tr) (rev rs))\<rparr>)"
proof (induction rs arbitrary: temp s rule: rev_induct)
  case Nil
  then show ?case by (simp add: unregister_loop_snoc_None)
next
  case (snoc r rs)
  from snoc.prems have r: "roots s = (pre @ None # map Some rs) @ [Some r]" by simp
  show ?case
    by (simp add: unregister_loop_snoc_Some [OF r] snoc.IH unwatch_def)
qed

lemma unregister_loop_ok:
  "roots s = map Some rs \<Longrightarrow>
   unregister_loop tr temp s =
     Ok (temp @ map Some (filter (\<lambda>r. path r \<notin> set tr) (rev rs)))
        (s\<lparr>roots := [],
           engine := engine s @ map (\<lambda>r. Unwatch (id' r)) (filter (\<lambda>r. path r \<in> set tr) (rev rs))\<rparr>)"
proof (induction rs arbitrary: temp s rule: rev_induct)
  case Nil
  then show ?case by (simp add: unregister_loop_Nil)
next
  case (snoc r rs)
  from snoc.prems have r: "roots s = map Some rs @ [Some r]" by simp
  show ?case
    by (simp add: unregister_loop_snoc_Some [OF r] snoc.IH unwatch_def)
qed

lemma restore_loop_eq:
  "n = length temp \<Longrightarrow> restore_loop n temp s = s\<lparr>roots := roots s @ rev temp\<rparr>"
proof (induction n arbitrary: temp s)
  case 0
  then show ?case by simp
next
  case (Suc n)
  then obtain xs x where "temp = xs @ [x]"
    by (metis length_Suc_conv_rev)
  with Suc show ?case by simp
qed

lemma unregister_roots_Nil: "unregister_roots [] s = Ok () s"
  by (simp add: unregister_roots_def)

lemma unregister_roots_crash:
  "tr \<noteq> [] \<Longrightarrow> roots s = pre @ None # map Some rs \<Longrightarrow>
   unregister_roots tr s =
     Crash Null_watch_root
       (s\<lparr>roots := pre,
          engine := engine s @ map (\<lambda>r. Unwatch (id' r)) (filter (\<lambda>r. path r \<in> set tr) (rev rs))\<rparr>)"
  by (simp add: unregister_roots_def unregister_loop_crash)

lemma unregister_roots_ok:
  "tr \<noteq> [] \<Longrightarrow> roots s = map Some rs \<Longrightarrow>
   unregister_roots tr s =
     Ok () (s\<lparr>roots := map Some (filter (\<lambda>r. path r \<notin> set tr) rs) @ replicate (length rs) None,
             engine := engine s @ map (\<lambda>r. Unwatch (id' r)) (filter (\<lambda>r. path r \<in> set tr) (rev rs))\<rparr>)"
  by (simp add: unregister_roots_def unregister_loop_ok [where rs = rs] restore_loop_eq
      rev_map rev_filter)

lemma split_last_None:
  "None \<in> set xs \<Longrightarrow> \<exists>pre rs. xs = pre @ None # map Some rs"
proof (induction xs rule: rev_induct)
  case Nil
  then show ?case by simp
next
  case (snoc x xs)
  show ?case
  proof (cases x)
    case None
    then have "xs @ [x] = xs @ None # map Some []" by simp
    then show ?thesis by blast
  next
    case (Some r)
    with snoc obtain pre rs where "xs = pre @ None # map Some rs" by auto
    with Some have "xs @ [x] = pre @ None # map Some (rs @ [r])" by simp
    then show ?thesis by blast
  qed
qed

lemma unregister_roots_null:
  "tr \<noteq> [] \<Longrightarrow> None \<in> set (roots s) \<Longrightarrow> \<exists>s'. unregister_roots tr s = Crash Null_watch_root s'"
  using split_last_None [of "roots s"] by (auto simp: unregister_roots_crash)

lemma check_missing_from_None:
  "i < length (roots s) \<Longrightarrow> roots s ! i = None \<Longrightarrow>
   check_missing_from e i s = Crash Null_watch_root s"
  by (subst check_missing_from.simps) simp

lemma check_root_removal_from_None:
  "i < length (roots s) \<Longrightarrow> roots s ! i = None \<Longrightarrow>
   check_root_removal_from p i s = Crash Null_watch_root s"
  by (subst check_root_removal_from.simps) simp

lemma check_missing_from_Some:
  "i < length (roots s) \<Longrightarrow> roots s ! i = Some r \<Longrightarrow>
   check_missing_from e i s =
     (if id' r < 0 \<and> stat_ok e (UNFLATTEN (path r)) then
        check_missing_from e (Suc i)
          (s\<lparr>engine := engine s @ [Watch (path r) None],
             roots := (roots s)[i := Some (r\<lparr>id' := watch_result e (engine s) (path r) None\<rparr>)],
             stdout := stdout s @ event_record ''CREATE'' (UNFLATTEN (path r))
                         @ event_record ''CHANGE'' (UNFLATTEN (path r))\<rparr>)
      else check_missing_from e (Suc i) s)"
  by (subst check_missing_from.simps) (simp add: watch_def report_event_def Let_def)

lemma check_root_removal_from_Some:
  "i < length (roots s) \<Longrightarrow> roots s ! i = Some r \<Longrightarrow>
   check_root_removal_from p i s =
     (if id' r \<ge> 0 \<and> p = UNFLATTEN (path r) then
        check_root_removal_from p (Suc i)
          (s\<lparr>engine := engine s @ [Unwatch (id' r)],
             roots := (roots s)[i := Some (r\<lparr>id' := - 1\<rparr>)],
             stdout := stdout s @ event_record ''DELETE'' p\<rparr>)
      else check_root_removal_from p (Suc i) s)"
  by (subst check_root_removal_from.simps)
     (auto simp: unwatch_def report_event_def strcmp_zero_iff)

subsection \<open>update_roots\<close>

lemma refused_iff: "length nr = Suc 0 \<and> set_find nr ''/'' \<longleftrightarrow> nr = [''/'']"
  by (cases nr) (auto simp: set_find_iff)

lemma map_Some_the: "None \<notin> set xs \<Longrightarrow> map Some (map the xs) = xs"
  by (induction xs) auto

lemma output_unwatchable_eq:
  "output_unwatchable e unw s =
     s\<lparr>stdout := stdout s @
          concat (map (\<lambda>arg. (case arg of None \<Rightarrow> printf_null e | Some str \<Rightarrow> str) @ [LF]) unw)\<rparr>"
  unfolding output_unwatchable_def
  by (induction unw arbitrary: s) (simp_all add: output_s_def output'_def)

lemma update_roots_refuse:
  "update_roots e [''/''] s =
     (case unregister_roots (roots_as_paths s)
             (s\<lparr>stdout := stdout s @ ''UNWATCHEABLE'' @ [LF] @ ''/'' @ [LF] @ ''#'' @ [LF]\<rparr>) of
        Crash f s1 \<Rightarrow> Crash f s1
      | Ok u s1 \<Rightarrow> Ok True (s1\<lparr>roots_as_paths := []\<rparr>))"
  by (simp add: update_roots_def set_find_iff output'_def)

lemma update_roots_no_mtab:
  "nr \<noteq> [''/''] \<Longrightarrow> mtab e = None \<Longrightarrow> update_roots e nr s = Ok False s"
  by (simp add: update_roots_def refused_iff unwatchable_mounts_eq)

lemma update_roots_valid:
  assumes "nr \<noteq> [''/'']" "mtab e \<noteq> None"
    and "\<exists>r \<in> set (set_difference (roots_as_paths s) nr). c_at (UNFLATTEN r) 0 = CHR ''/''"
  shows "update_roots e nr s = Crash Null_string s"
proof -
  from assms(2) obtain ms where "unwatchable_mounts e = Some (None # ms)"
    by (auto simp: unwatchable_mounts_eq replicate_20)
  with assms(1,3) show ?thesis
    by (simp add: update_roots_def refused_iff register_roots_null_valid)
qed

lemma update_roots_invalid:
  assumes "nr \<noteq> [''/'']" "mtab e \<noteq> None"
    and "\<forall>r \<in> set (set_difference (roots_as_paths s) nr). c_at (UNFLATTEN r) 0 \<noteq> CHR ''/''"
  shows "update_roots e nr s =
     (case unregister_roots (set_difference nr (roots_as_paths s)) s of
        Crash f s2 \<Rightarrow> Crash f s2
      | Ok u s2 \<Rightarrow>
          Ok True (s2\<lparr>stdout := stdout s2 @ ''UNWATCHEABLE'' @ [LF] @
                        concat (replicate 20 (printf_null e @ [LF])) @ ''#'' @ [LF],
                     roots_as_paths := nr\<rparr>))"
proof -
  from assms(2) obtain ms where "unwatchable_mounts e = Some ms"
    by (auto simp: unwatchable_mounts_eq)
  with assms(1,3) show ?thesis
    by (simp add: update_roots_def refused_iff register_roots_null_invalid
        output_unwatchable_eq output'_def map_replicate_const split: result.splits)
qed

lemma unregister_roots_Ok_roots:
  assumes "unregister_roots tr s = Ok u s'"
  shows "(tr = [] \<and> s' = s) \<or>
         (tr \<noteq> [] \<and> (\<exists>rs. roots s = map Some rs \<and>
            roots s' = map Some (filter (\<lambda>r. path r \<notin> set tr) rs) @ replicate (length rs) None \<and>
            engine s' = engine s @ map (\<lambda>r. Unwatch (id' r)) (filter (\<lambda>r. path r \<in> set tr) (rev rs)) \<and>
            stdout s' = stdout s \<and> roots_as_paths s' = roots_as_paths s))"
proof (cases "tr = []")
  case True
  with assms show ?thesis by (simp add: unregister_roots_Nil)
next
  case False
  have "None \<notin> set (roots s)"
    using unregister_roots_null [OF False, of s] assms by auto
  then have "roots s = map Some (map the (roots s))"
    by (rule map_Some_the [symmetric])
  with unregister_roots_ok [OF False this] assms False show ?thesis
    by (intro disjI2 conjI exI [where x = "map the (roots s)"]) auto
qed

lemma replicate_20_snoc: "replicate 20 x = replicate 19 x @ [x]"
  by (simp add: numeral_eq_Suc replicate_append_same)

lemma update_roots_nothing_new:
  assumes "set new_roots = set (roots_as_paths s)" "new_roots \<noteq> [''/'']"
  shows "update_roots e new_roots s =
     (case mtab e of
        None \<Rightarrow> Ok False s
      | Some ents \<Rightarrow>
          Ok True (s\<lparr>stdout := stdout s @ ''UNWATCHEABLE'' @ [LF] @
                        concat (replicate 20 (printf_null e @ [LF])) @ ''#'' @ [LF],
                    roots_as_paths := new_roots\<rparr>))"
proof (cases "mtab e")
  case None
  with assms(2) show ?thesis by (simp add: update_roots_no_mtab)
next
  case (Some ents)
  then have m: "mtab e \<noteq> None" by simp
  have add: "set_difference (roots_as_paths s) new_roots = []"
    and rem: "set_difference new_roots (roots_as_paths s) = []"
    using assms(1) by (simp_all add: set_difference_subset)
  then have inv: "\<forall>r \<in> set (set_difference (roots_as_paths s) new_roots).
      c_at (UNFLATTEN r) 0 \<noteq> CHR ''/''"
    by simp
  show ?thesis
    by (simp add: update_roots_invalid [OF assms(2) m inv] rem unregister_roots_Nil Some)
qed

lemma update_roots_relative_first:
  assumes "mtab e \<noteq> None" "c_at (UNFLATTEN r) 0 \<noteq> CHR ''/''"
  shows "update_roots e [r] init_state =
     Ok True (init_state\<lparr>stdout := ''UNWATCHEABLE'' @ [LF] @
                 concat (replicate 20 (printf_null e @ [LF])) @ ''#'' @ [LF],
               roots_as_paths := [r]\<rparr>)"
proof -
  have nr: "[r] \<noteq> [''/'']"
    using assms(2) by (auto simp: UNFLATTEN_def c_at_def)
  have d: "set_difference (roots_as_paths init_state) [r] = [r]"
    and rem: "set_difference [r] (roots_as_paths init_state) = []"
    by (simp_all add: set_difference_def init_state_def set_find_def)
  have inv: "\<forall>x \<in> set (set_difference (roots_as_paths init_state) [r]).
      c_at (UNFLATTEN x) 0 \<noteq> CHR ''/''"
    using assms(2) by (simp add: d)
  show ?thesis
    unfolding update_roots_invalid [OF nr assms(1) inv] rem
    by (simp add: unregister_roots_Nil init_state_def)
qed

subsection \<open>Null elements of the roots vector\<close>

lemma check_missing_from_null:
  "roots s = map Some (dn @ todo) @ None # rest \<Longrightarrow>
   \<exists>s'. check_missing_from e (length dn) s = Crash Null_watch_root s'"
proof (induction todo arbitrary: dn s)
  case Nil
  then show ?case
    by (simp add: check_missing_from_None nth_append)
next
  case (Cons r todo)
  have i: "length dn < length (roots s)" and ri: "roots s ! length dn = Some r"
    using Cons.prems by (simp_all add: nth_append)
  show ?case
  proof (cases "id' r < 0 \<and> stat_ok e (UNFLATTEN (path r))")
    case True
    define r1 where "r1 = r\<lparr>id' := watch_result e (engine s) (path r) None\<rparr>"
    define s1 where "s1 = s\<lparr>engine := engine s @ [Watch (path r) None],
             roots := (roots s)[length dn := Some r1],
             stdout := stdout s @ event_record ''CREATE'' (UNFLATTEN (path r))
                         @ event_record ''CHANGE'' (UNFLATTEN (path r))\<rparr>"
    have step: "check_missing_from e (length dn) s = check_missing_from e (length (dn @ [r1])) s1"
      by (subst check_missing_from_Some [OF i ri], subst if_P [OF True]) (simp add: s1_def r1_def)
    have "roots s1 = map Some ((dn @ [r1]) @ todo) @ None # rest"
      using Cons.prems by (simp add: s1_def list_update_append)
    from Cons.IH [OF this] step show ?thesis by simp
  next
    case False
    have step: "check_missing_from e (length dn) s = check_missing_from e (length (dn @ [r])) s"
      by (subst check_missing_from_Some [OF i ri], subst if_not_P [OF False]) simp
    have "roots s = map Some ((dn @ [r]) @ todo) @ None # rest"
      using Cons.prems by simp
    from Cons.IH [OF this] step show ?thesis by simp
  qed
qed

lemma check_root_removal_from_null:
  "roots s = map Some (dn @ todo) @ None # rest \<Longrightarrow>
   \<exists>s'. check_root_removal_from p (length dn) s = Crash Null_watch_root s'"
proof (induction todo arbitrary: dn s)
  case Nil
  then show ?case
    by (simp add: check_root_removal_from_None nth_append)
next
  case (Cons r todo)
  have i: "length dn < length (roots s)" and ri: "roots s ! length dn = Some r"
    using Cons.prems by (simp_all add: nth_append)
  show ?case
  proof (cases "id' r \<ge> 0 \<and> p = UNFLATTEN (path r)")
    case True
    define s1 where "s1 = s\<lparr>engine := engine s @ [Unwatch (id' r)],
             roots := (roots s)[length dn := Some (r\<lparr>id' := - 1\<rparr>)],
             stdout := stdout s @ event_record ''DELETE'' p\<rparr>"
    have step: "check_root_removal_from p (length dn) s =
        check_root_removal_from p (length (dn @ [r\<lparr>id' := - 1\<rparr>])) s1"
      by (subst check_root_removal_from_Some [OF i ri], subst if_P [OF True]) (simp add: s1_def)
    have "roots s1 = map Some ((dn @ [r\<lparr>id' := - 1\<rparr>]) @ todo) @ None # rest"
      using Cons.prems by (simp add: s1_def list_update_append)
    from Cons.IH [OF this] step show ?thesis by simp
  next
    case False
    have step: "check_root_removal_from p (length dn) s =
        check_root_removal_from p (length (dn @ [r])) s"
      by (subst check_root_removal_from_Some [OF i ri], subst if_not_P [OF False]) simp
    have "roots s = map Some ((dn @ [r]) @ todo) @ None # rest"
      using Cons.prems by simp
    from Cons.IH [OF this] step show ?thesis by simp
  qed
qed

lemma split_first_None:
  "None \<in> set xs \<Longrightarrow> \<exists>rs rest. xs = map Some rs @ None # rest"
proof (induction xs)
  case Nil
  then show ?case by simp
next
  case (Cons x xs)
  show ?case
  proof (cases x)
    case None
    then have "x # xs = map Some [] @ None # xs" by simp
    then show ?thesis by blast
  next
    case (Some r)
    with Cons obtain rs rest where "xs = map Some rs @ None # rest" by auto
    with Some have "x # xs = map Some (r # rs) @ None # rest" by simp
    then show ?thesis by blast
  qed
qed

lemma check_missing_roots_null:
  assumes "None \<in> set (roots s)"
  shows "\<exists>s'. check_missing_roots e s = Crash Null_watch_root s'"
proof -
  from split_first_None [OF assms] obtain rs rest where
    "roots s = map Some ([] @ rs) @ None # rest" by auto
  from check_missing_from_null [OF this] show ?thesis
    by (simp add: check_missing_roots_def)
qed

lemma check_root_removal_null:
  assumes "None \<in> set (roots s)"
  shows "\<exists>s'. check_root_removal p s = Crash Null_watch_root s'"
proof -
  from split_first_None [OF assms] obtain rs rest where
    "roots s = map Some ([] @ rs) @ None # rest" by auto
  from check_root_removal_from_null [OF this] show ?thesis
    by (simp add: check_root_removal_def)
qed

lemma check_missing_roots_front:
  "roots s = None # rest \<Longrightarrow> check_missing_roots e s = Crash Null_watch_root s"
  by (simp add: check_missing_roots_def check_missing_from_None)

lemma check_root_removal_front:
  "roots s = None # rest \<Longrightarrow> check_root_removal p s = Crash Null_watch_root s"
  by (simp add: check_root_removal_def check_root_removal_from_None)

lemma event_reports_fields:
  "roots (event_reports p event s) = roots s"
  "engine (event_reports p event s) = engine s"
  "roots_as_paths (event_reports p event s) = roots_as_paths s"
  by (simp_all add: event_reports_def report_event_def)

lemma inotify_callback_Ok_roots:
  assumes "inotify_callback p event s = Ok u s'" "roots s = None # rest"
  shows "roots s' = roots s \<and> engine s' = engine s \<and> roots_as_paths s' = roots_as_paths s"
proof (cases "event AND (IN_DELETE_SELF OR IN_MOVE_SELF) \<noteq> 0")
  case True
  have "roots (event_reports p event s) = None # rest"
    using assms(2) by (simp add: event_reports_fields)
  from check_root_removal_front [OF this] assms(1) True show ?thesis
    by (simp add: inotify_callback_def)
next
  case False
  with assms(1) show ?thesis
    by (auto simp: inotify_callback_def event_reports_fields output'_def split: if_splits)
qed

lemma update_roots_Ok_null:
  assumes "update_roots e nr s = Ok b s'" "None \<in> set (roots s)"
  shows "roots s' = roots s \<and> engine s' = engine s"
proof (cases "nr = [''/'']")
  case True
  let ?s0 = "s\<lparr>stdout := stdout s @ ''UNWATCHEABLE'' @ [LF] @ ''/'' @ [LF] @ ''#'' @ [LF]\<rparr>"
  from assms(1) True obtain s1 where
    u: "unregister_roots (roots_as_paths s) ?s0 = Ok () s1" and s': "s' = s1\<lparr>roots_as_paths := []\<rparr>"
    by (auto simp: update_roots_refuse split: result.splits)
  have "None \<in> set (roots ?s0)" using assms(2) by simp
  with unregister_roots_null [of "roots_as_paths s" ?s0] u have "roots_as_paths s = []"
    by auto
  with u s' show ?thesis by (auto simp: unregister_roots_Nil)
next
  case False
  show ?thesis
  proof (cases "mtab e")
    case None
    with False assms(1) show ?thesis by (simp add: update_roots_no_mtab)
  next
    case (Some ents)
    then have m: "mtab e \<noteq> None" by simp
    have inv: "\<forall>r \<in> set (set_difference (roots_as_paths s) nr). c_at (UNFLATTEN r) 0 \<noteq> CHR ''/''"
      using update_roots_valid [OF False m, of s] assms(1) by auto
    let ?tr = "set_difference nr (roots_as_paths s)"
    from assms(1) obtain s2 where u: "unregister_roots ?tr s = Ok () s2"
      and s': "s' = s2\<lparr>stdout := stdout s2 @ ''UNWATCHEABLE'' @ [LF] @
                        concat (replicate 20 (printf_null e @ [LF])) @ ''#'' @ [LF],
                     roots_as_paths := nr\<rparr>"
      by (auto simp: update_roots_invalid [OF False m inv] split: result.splits)
    from unregister_roots_null [of ?tr s] u assms(2) have "?tr = []" by auto
    with u s' show ?thesis by (simp add: unregister_roots_Nil)
  qed
qed

lemma reachable_roots: "reachable s \<Longrightarrow> roots s = replicate 20 None \<and> engine s = []"
proof (induction rule: reachable.induct)
  case start
  show ?case by (simp add: init_state_def)
next
  case (update s e new_roots b s')
  then have "None \<in> set (roots s)" by simp
  from update_roots_Ok_null [OF update.hyps(2) this] update.IH show ?case by simp
next
  case (tick s e u s')
  then have "roots s = None # replicate 19 None" by (simp add: replicate_20)
  from check_missing_roots_front [OF this] tick.hyps(2) show ?case by simp
next
  case (event s p ev u s')
  then have "roots s = None # replicate 19 None" by (simp add: replicate_20)
  from inotify_callback_Ok_roots [OF event.hyps(2) this] event.IH show ?case by simp
qed

lemma reachable_not_refused: "reachable s \<Longrightarrow> roots_as_paths s \<noteq> [''/'']"
proof (induction rule: reachable.induct)
  case start
  show ?case by (simp add: init_state_def)
next
  case (update s e new_roots b s')
  have n: "None \<in> set (roots s)"
    using reachable_roots [OF update.hyps(1)] by simp
  show ?case
  proof (cases "new_roots = [''/'']")
    case True
    with update.hyps(2) show ?thesis
      by (auto simp: update_roots_refuse split: result.splits)
  next
    case False
    show ?thesis
    proof (cases "mtab e")
      case None
      with False update show ?thesis by (simp add: update_roots_no_mtab)
    next
      case (Some ents)
      then have m: "mtab e \<noteq> None" by simp
      have inv: "\<forall>r \<in> set (set_difference (roots_as_paths s) new_roots).
          c_at (UNFLATTEN r) 0 \<noteq> CHR ''/''"
        using update_roots_valid [OF False m, of s] update.hyps(2) by auto
      from update.hyps(2) False show ?thesis
        by (auto simp: update_roots_invalid [OF False m inv] split: result.splits)
    qed
  qed
next
  case (tick s e u s')
  then have "roots s = None # replicate 19 None"
    using reachable_roots [of s] by (simp add: replicate_20)
  from check_missing_roots_front [OF this] tick.hyps(2) show ?case by simp
next
  case (event s p ev u s')
  then have "roots s = None # replicate 19 None"
    using reachable_roots [of s] by (simp add: replicate_20)
  from inotify_callback_Ok_roots [OF event.hyps(2) this] event.IH show ?case by simp
qed

section \<open>The claims\<close>

subsection \<open>C1: a ROOTS update with one plain directory\<close>

text \<open>
  C1, the code at the failing input.  The claim: for the input lines \<open>ROOTS\<close>, \<open>/tmp/x\<close>, \<open>#\<close>,
  with \<open>/tmp/x\<close> an existing, empty, mount-free directory, \<open>update_roots\<close> writes exactly
  \<open>UNWATCHEABLE\<close>, \<open>#\<close>.  The code: the mount vector of a system without unwatchable mounts
  is twenty null pointers, \<open>register_roots\<close> hands the first of them to \<open>is_parent_path\<close>, and
  the process faults there with nothing written.
\<close>

theorem single_directory_update_faults:
  "unwatchable_mounts tmp_env = Some (replicate 20 None)
   \<and> read_input tmp_env ''ROOTS\<newline>/tmp/x\<newline>#\<newline>'' init_state = Crash Null_string init_state
   \<and> stdout init_state = []"
  by code_simp

subsection \<open>C2: roots and unwatchable mounts\<close>

text \<open>
  C2, the code at the failing input.  The claim: a root at or under an unwatchable mount point
  is reported and skipped, and the mount points strictly under a root are passed to
  \<open>watch\<close> as excludes and reported.  The code: with \<open>/proc\<close> and \<open>/tmp/x/mnt\<close> unwatchable, the
  update to the roots \<open>/proc/self\<close> and \<open>/tmp/x\<close> faults in \<open>is_parent_path\<close> on the first,
  null, element of the mount vector; no \<open>watch\<close> call is made and nothing is reported.
  (On a mount vector without null elements the loop does what the claim says:
  \<open>register_one_root\<close>.)
\<close>

theorem mount_aware_registration_faults:
  "unwatchable_mounts nfs_env = Some (replicate 20 None @ [Some ''/proc'', Some ''/tmp/x/mnt''])
   \<and> read_roots ''/proc/self\<newline>/tmp/x\<newline>#\<newline>'' [] = Inr (Some [''/tmp/x'', ''/proc/self''], [])
   \<and> update_roots nfs_env [''/tmp/x'', ''/proc/self''] init_state = Crash Null_string init_state
   \<and> engine init_state = [] \<and> stdout init_state = []"
  by code_simp

subsection \<open>C3: the refusal of the root set \<open>{"/"}\<close>\<close>

text \<open>
  C3, the code at the failing input.  The claim: for the new root set \<open>{"/"}\<close>, \<open>update_roots\<close>
  writes the block \<open>UNWATCHEABLE\<close>, \<open>/\<close>, \<open>#\<close>, unregisters every current root, leaves the current
  root set empty and returns success.  The code: once the current root set is not empty (here
  after the command \<open>ROOTS\<close>, \<open>build\<close>, \<open>#\<close>), the block is written and then the removal loop of
  \<open>unregister_roots\<close> pops a null element of \<open>roots\<close> and faults on \<open>root->path\<close>.
\<close>

theorem refusal_after_relative_root_faults:
  "read_input plain_env ''ROOTS\<newline>build\<newline>#\<newline>'' init_state =
     Ok (ERR_CONTINUE, []) relative_root_state
   \<and> read_input plain_env ''ROOTS\<newline>/\<newline>#\<newline>'' relative_root_state =
       Crash Null_watch_root
         (relative_root_state\<lparr>roots := replicate 19 None,
            stdout := stdout relative_root_state @ ''UNWATCHEABLE\<newline>/\<newline>#\<newline>''\<rparr>)"
proof -
  have l1: "read_line ''ROOTS\<newline>build\<newline>#\<newline>'' = Inr (Some ''ROOTS'', ''build\<newline>#\<newline>'')"
    and r1: "read_roots ''build\<newline>#\<newline>'' [] = Inr (Some [''build''], [])"
    and l2: "read_line ''ROOTS\<newline>/\<newline>#\<newline>'' = Inr (Some ''ROOTS'', ''/\<newline>#\<newline>'')"
    and r2: "read_roots ''/\<newline>#\<newline>'' [] = Inr (Some [''/''], [])"
    by code_simp+
  have u1: "update_roots plain_env [''build''] init_state = Ok True relative_root_state"
    using update_roots_relative_first [of plain_env "''build''"]
    by (simp add: plain_env_def relative_root_state_def init_state_def UNFLATTEN_def c_at_def)
  have "roots (relative_root_state
      \<lparr>stdout := stdout relative_root_state @ ''UNWATCHEABLE'' @ [LF] @ ''/'' @ [LF] @ ''#'' @ [LF]\<rparr>)
      = replicate 19 None @ None # map Some []"
    by (simp add: relative_root_state_def replicate_20_snoc)
  from unregister_roots_crash [OF _ this, of "[''build'']"]
  have u2: "update_roots plain_env [''/''] relative_root_state =
       Crash Null_watch_root
         (relative_root_state\<lparr>roots := replicate 19 None,
            stdout := stdout relative_root_state @ ''UNWATCHEABLE\<newline>/\<newline>#\<newline>''\<rparr>)"
    by (simp add: update_roots_refuse relative_root_state_def LF_def)
  show ?thesis
    by (simp add: read_input_def l1 r1 l2 r2 u1 u2 ERR_CONTINUE_def)
qed

subsection \<open>C4: the two states of a watch root\<close>


subsection \<open>C5: what a tick reports for a restored root\<close>


subsection \<open>C6: is_parent_path\<close>

text \<open>
  C6.  For all byte strings \<open>parent\<close> and \<open>child\<close>, \<open>is_parent_path(parent, child)\<close> returns
  true if and only if \<open>child\<close> equals \<open>parent\<close> or begins with \<open>parent\<close> followed immediately
  by a \<open>/\<close> byte.  In particular \<open>is_parent_path(p, p)\<close> is true for every \<open>p\<close>,
  \<open>is_parent_path("/a", "/ab")\<close> is false and \<open>is_parent_path("/a", "/a/b")\<close> is true.
\<close>

theorem is_parent_path_iff:
  "is_parent_path (Some parent) (Some child) =
     Inr (child = parent \<or> prefix (parent @ ''/'') child)
   \<and> is_parent_path (Some p) (Some p) = Inr True
   \<and> is_parent_path (Some ''/a'') (Some ''/ab'') = Inr False
   \<and> is_parent_path (Some ''/a'') (Some ''/a/b'') = Inr True"
  by (simp add: is_parent_path_Some)

subsection \<open>C7: an update to the current root set\<close>

text \<open>
  C7, counterexample to the claim as stated.  The claim: an update to the current root set
  changes nothing in the UNWATCHEABLE output relative to the previous update.  After the
  command \<open>ROOTS\<close>, \<open>/\<close>, \<open>#\<close>, whose block names \<open>/\<close>, the current root set is empty; the update
  to the empty set then writes a block that does not name \<open>/\<close>.
\<close>

theorem same_roots_block_differs_after_refusal:
  "update_roots plain_env [''/''] init_state = Ok True refused_state
   \<and> roots_as_paths refused_state = []
   \<and> update_roots plain_env [] refused_state =
       Ok True (refused_state\<lparr>stdout := stdout refused_state @
         ''UNWATCHEABLE'' @ [LF] @ concat (replicate 20 (''(null)'' @ [LF])) @ ''#'' @ [LF]\<rparr>)
   \<and> ''UNWATCHEABLE'' @ [LF] @ concat (replicate 20 (''(null)'' @ [LF])) @ ''#'' @ [LF]
       \<noteq> stdout refused_state"
proof -
  have "update_roots plain_env [''/''] init_state = Ok True refused_state"
    by (simp add: update_roots_refuse unregister_roots_Nil init_state_def refused_state_def LF_def)
  moreover have "roots_as_paths refused_state = []"
    by (simp add: refused_state_def init_state_def)
  moreover have "update_roots plain_env [] refused_state =
       Ok True (refused_state\<lparr>stdout := stdout refused_state @
         ''UNWATCHEABLE'' @ [LF] @ concat (replicate 20 (''(null)'' @ [LF])) @ ''#'' @ [LF]\<rparr>)"
    using update_roots_nothing_new [of "[]" refused_state plain_env]
    by (simp add: refused_state_def init_state_def plain_env_def)
  moreover have "''UNWATCHEABLE'' @ [LF] @ concat (replicate 20 (''(null)'' @ [LF])) @ ''#'' @ [LF]
       \<noteq> stdout refused_state"
    by (simp add: refused_state_def init_state_def replicate_20 LF_def)
  ultimately show ?thesis by blast
qed

text \<open>
  C7, amended.  An update to a root set that equals the current one as a set of path strings,
  and is not \<open>{"/"}\<close>, makes no \<open>watch\<close> and no \<open>unwatch\<close> call and leaves the \<open>roots\<close> vector as
  it is.  When the mount table cannot be opened it returns false and writes nothing.
  Otherwise it returns true, takes the new set as the current one and writes one UNWATCHEABLE
  block that names no path, whatever the previous update wrote: between its first line and
  its \<open>#\<close> line stand only lines that \<open>printf\<close> writes for null elements of the \<open>unwatchable\<close>
  vector.  (The current root set of a process is never \<open>{"/"}\<close>: \<open>reachable_not_refused\<close>.)
\<close>

theorem update_roots_same_set:
  assumes "set new_roots = set (roots_as_paths s)" "new_roots \<noteq> [''/'']"
  shows "(case mtab e of
            None \<Rightarrow> update_roots e new_roots s = Ok False s
          | Some ents \<Rightarrow>
              (\<exists>n. update_roots e new_roots s =
                 Ok True (s\<lparr>stdout := stdout s @ ''UNWATCHEABLE'' @ [LF] @
                               concat (replicate n (printf_null e @ [LF])) @ ''#'' @ [LF],
                           roots_as_paths := new_roots\<rparr>)))"
  using update_roots_nothing_new [OF assms, of e] by (auto split: option.splits)

theorem update_roots_same_set_witness:
  "set [''build''] = set (roots_as_paths relative_root_state)
   \<and> [''build''] \<noteq> [''/'']
   \<and> mtab plain_env = Some [(''/'', ''ext4''), (''/proc'', ''proc''), (''/tmp'', ''tmpfs'')]
   \<and> (\<exists>n. update_roots plain_env [''build''] relative_root_state =
       Ok True (relative_root_state\<lparr>stdout := stdout relative_root_state @ ''UNWATCHEABLE'' @ [LF] @
                   concat (replicate n (''(null)'' @ [LF])) @ ''#'' @ [LF],
                 roots_as_paths := [''build'']\<rparr>))"
proof -
  have h: "set [''build''] = set (roots_as_paths relative_root_state)"
    "[''build''] \<noteq> [''/'']"
    by (auto simp: relative_root_state_def)
  have m: "mtab plain_env = Some [(''/'', ''ext4''), (''/proc'', ''proc''), (''/tmp'', ''tmpfs'')]"
    "printf_null plain_env = ''(null)''"
    by (simp_all add: plain_env_def)
  from update_roots_same_set [OF h, of plain_env] h m show ?thesis
    by simp
qed

subsection \<open>C8: read_line\<close>

text \<open>
  C8, the code at the failing input.  The claim, with the comment on \<open>read_line\<close> in
  fsnotifier.h ("trims trailing carriage return if any"): a line that ends in CR LF is
  returned without both.  The code removes the line feed only: for the line \<open>ROOTS\<close> CR LF it
  returns \<open>ROOTS\<close> CR.
\<close>

theorem read_line_keeps_carriage_return:
  "read_line (''ROOTS'' @ [CR, LF]) = Inr (Some (''ROOTS'' @ [CR]), [])
   \<and> read_line (''ROOTS'' @ [CR, LF]) \<noteq> Inr (Some ''ROOTS'', [])"
  using read_line_line [of "''ROOTS'' @ [CR]" "[]"]
  by (simp add: LF_def CR_def NUL_def INPUT_BUF_LEN_def)

subsection \<open>C9: the null elements of the vectors of paths\<close>

text \<open>
  C9, counterexample to the claim as stated.  The claim: every UNWATCHEABLE block that is
  written formats the twenty null elements before any genuine path.  The block of the command
  \<open>ROOTS\<close>, \<open>/\<close>, \<open>#\<close> is a literal of \<open>update_roots\<close>: it names \<open>/\<close> and holds no line for a null
  element.
\<close>

theorem refusal_block_has_no_null_lines:
  "read_input plain_env ''ROOTS\<newline>/\<newline>#\<newline>'' init_state =
     Ok (ERR_CONTINUE, []) (init_state\<lparr>stdout := ''UNWATCHEABLE\<newline>/\<newline>#\<newline>''\<rparr>)"
  by code_simp

text \<open>
  C9, amended.  The vector that \<open>unwatchable_mounts\<close> returns starts with twenty null
  elements, and every element after them is a mount point.  Consequently every update, other
  than the refusal of \<open>{"/"}\<close>, that opens the mount table and has among the roots to add one
  whose effective path starts with \<open>/\<close> faults in \<open>is_parent_path\<close> on a null parent, in the
  state it started from.  And every UNWATCHEABLE block that \<open>update_roots\<close> writes from its
  \<open>unwatchable\<close> vector, that is on every update other than that refusal that returns true,
  is the first line, then what \<open>printf\<close> writes for a null \<open>%s\<close> argument twenty times, each on
  a line, then the \<open>#\<close> line.
\<close>

theorem null_elements_of_mounts_and_unwatchable:
  "(unwatchable_mounts e = Some mounts \<longrightarrow>
      take 20 mounts = replicate 20 None \<and> None \<notin> set (drop 20 mounts))
   \<and> (new_roots \<noteq> [''/''] \<and> mtab e \<noteq> None \<and>
        (\<exists>r \<in> set (set_difference (roots_as_paths s) new_roots). c_at (UNFLATTEN r) 0 = CHR ''/'')
        \<longrightarrow> update_roots e new_roots s = Crash Null_string s)
   \<and> (new_roots \<noteq> [''/''] \<and> update_roots e new_roots s = Ok True s' \<longrightarrow>
        stdout s' = stdout s @ ''UNWATCHEABLE'' @ [LF] @
                      concat (replicate 20 (printf_null e @ [LF])) @ ''#'' @ [LF])"
proof (intro conjI impI)
  assume "unwatchable_mounts e = Some mounts"
  then show "take 20 mounts = replicate 20 None" and "None \<notin> set (drop 20 mounts)"
    by (auto simp: unwatchable_mounts_eq split: option.splits)
next
  assume "new_roots \<noteq> [''/''] \<and> mtab e \<noteq> None \<and>
    (\<exists>r \<in> set (set_difference (roots_as_paths s) new_roots). c_at (UNFLATTEN r) 0 = CHR ''/'')"
  then show "update_roots e new_roots s = Crash Null_string s"
    by (simp add: update_roots_valid)
next
  assume a: "new_roots \<noteq> [''/''] \<and> update_roots e new_roots s = Ok True s'"
  then have nr: "new_roots \<noteq> [''/'']" and ok: "update_roots e new_roots s = Ok True s'"
    by simp_all
  have m: "mtab e \<noteq> None"
    using update_roots_no_mtab [OF nr, of e s] ok by auto
  have inv: "\<forall>r \<in> set (set_difference (roots_as_paths s) new_roots). c_at (UNFLATTEN r) 0 \<noteq> CHR ''/''"
    using update_roots_valid [OF nr m, of s] ok by auto
  from ok obtain s2 where u: "unregister_roots (set_difference new_roots (roots_as_paths s)) s = Ok () s2"
    and s': "s' = s2\<lparr>stdout := stdout s2 @ ''UNWATCHEABLE'' @ [LF] @
                        concat (replicate 20 (printf_null e @ [LF])) @ ''#'' @ [LF],
                     roots_as_paths := new_roots\<rparr>"
    by (auto simp: update_roots_invalid [OF nr m inv] split: result.splits)
  from unregister_roots_Ok_roots [OF u] have "stdout s2 = stdout s" by auto
  with s' show "stdout s' = stdout s @ ''UNWATCHEABLE'' @ [LF] @
                      concat (replicate 20 (printf_null e @ [LF])) @ ''#'' @ [LF]"
    by simp
qed

theorem null_elements_of_mounts_and_unwatchable_witness:
  "unwatchable_mounts plain_env = Some (replicate 20 None @ [Some ''/proc''])
   \<and> take 20 (replicate 20 None @ [Some ''/proc'']) = replicate 20 (None :: string option)
   \<and> None \<notin> set (drop 20 (replicate 20 None @ [Some ''/proc'']))
   \<and> [''/tmp/x''] \<noteq> [''/''] \<and> mtab plain_env \<noteq> None
   \<and> c_at (UNFLATTEN ''/tmp/x'') 0 = CHR ''/''
   \<and> update_roots plain_env [''/tmp/x''] init_state = Crash Null_string init_state
   \<and> [''build''] \<noteq> [''/'']
   \<and> update_roots plain_env [''build''] init_state = Ok True relative_root_state
   \<and> stdout relative_root_state = stdout init_state @ ''UNWATCHEABLE'' @ [LF] @
        concat (replicate 20 (printf_null plain_env @ [LF])) @ ''#'' @ [LF]"
proof -
  have m: "unwatchable_mounts plain_env = Some (replicate 20 None @ [Some ''/proc''])"
    by code_simp
  have d: "set_difference (roots_as_paths init_state) [''/tmp/x''] = [''/tmp/x'']"
    by code_simp
  have v: "c_at (UNFLATTEN ''/tmp/x'') 0 = CHR ''/''"
    by code_simp
  have t: "mtab plain_env \<noteq> None"
    by (simp add: plain_env_def)
  have u: "update_roots plain_env [''build''] init_state = Ok True relative_root_state"
    using update_roots_relative_first [of plain_env "''build''"]
    by (simp add: plain_env_def relative_root_state_def init_state_def UNFLATTEN_def c_at_def)
  note c9 = null_elements_of_mounts_and_unwatchable
  from c9 [of plain_env "replicate 20 None @ [Some ''/proc'']" "[''/tmp/x'']" init_state]
    c9 [of plain_env "replicate 20 None @ [Some ''/proc'']" "[''build'']" init_state relative_root_state]
    m d v t u
  show ?thesis by simp
qed

subsection \<open>C10: the null elements of the roots vector\<close>

text \<open>
  C10.  The \<open>roots\<close> vector is constructed with twenty null elements, and they stay its first
  twenty elements in every state \<open>s\<close> the process reaches.  In every such state
  \<open>check_missing_roots\<close> and \<open>check_root_removal\<close> fault on \<open>root->id\<close> of a null element at
  once, so does \<open>inotify_callback\<close> for every event that carries delete-self or move-self, and
  \<open>unregister_roots\<close> faults on \<open>root->path\<close> in its removal loop whenever the set to remove
  is not empty.  None of the three loops tests an element for null: in any state \<open>t\<close> at all, a
  null element anywhere in the vector makes each of them fault.
\<close>

theorem roots_null_elements_fault:
  assumes "reachable s"
  shows "take 20 (roots s) = replicate 20 None
         \<and> check_missing_roots e s = Crash Null_watch_root s
         \<and> check_root_removal p s = Crash Null_watch_root s
         \<and> (ev AND (IN_DELETE_SELF OR IN_MOVE_SELF) \<noteq> 0 \<longrightarrow>
              (\<exists>s'. inotify_callback p ev s = Crash Null_watch_root s'))
         \<and> (to_remove \<noteq> [] \<longrightarrow> (\<exists>s'. unregister_roots to_remove s = Crash Null_watch_root s'))
         \<and> (None \<in> set (roots t) \<longrightarrow>
              (\<exists>t'. check_missing_roots e t = Crash Null_watch_root t') \<and>
              (\<exists>t'. check_root_removal p t = Crash Null_watch_root t') \<and>
              (to_remove \<noteq> [] \<longrightarrow> (\<exists>t'. unregister_roots to_remove t = Crash Null_watch_root t')))"
proof -
  from reachable_roots [OF assms] have r: "roots s = replicate 20 None" by simp
  then have front: "roots s = None # replicate 19 None" by (simp add: replicate_20)
  have "roots (event_reports p ev s) = None # replicate 19 None"
    using front by (simp add: event_reports_fields)
  from check_root_removal_front [OF this]
  have cb: "ev AND (IN_DELETE_SELF OR IN_MOVE_SELF) \<noteq> 0 \<longrightarrow>
      (\<exists>s'. inotify_callback p ev s = Crash Null_watch_root s')"
    by (simp add: inotify_callback_def)
  have "None \<in> set (roots s)" using front by simp
  then have un: "to_remove \<noteq> [] \<longrightarrow> (\<exists>s'. unregister_roots to_remove s = Crash Null_watch_root s')"
    using unregister_roots_null [of to_remove s] by blast
  have anywhere: "None \<in> set (roots t) \<longrightarrow>
              (\<exists>t'. check_missing_roots e t = Crash Null_watch_root t') \<and>
              (\<exists>t'. check_root_removal p t = Crash Null_watch_root t') \<and>
              (to_remove \<noteq> [] \<longrightarrow> (\<exists>t'. unregister_roots to_remove t = Crash Null_watch_root t'))"
    using check_missing_roots_null [of t e] check_root_removal_null [of t p]
      unregister_roots_null [of to_remove t]
    by blast
  from r cb un anywhere check_missing_roots_front [OF front] check_root_removal_front [OF front]
  show ?thesis by simp
qed

theorem roots_null_elements_fault_witness:
  "reachable relative_root_state
   \<and> take 20 (roots relative_root_state) = replicate 20 None
   \<and> check_missing_roots plain_env relative_root_state = Crash Null_watch_root relative_root_state
   \<and> check_root_removal ''/tmp/x'' relative_root_state = Crash Null_watch_root relative_root_state
   \<and> IN_DELETE_SELF AND (IN_DELETE_SELF OR IN_MOVE_SELF) \<noteq> 0
   \<and> (\<exists>s'. inotify_callback ''/tmp/x'' IN_DELETE_SELF relative_root_state = Crash Null_watch_root s')
   \<and> [''/tmp/x''] \<noteq> []
   \<and> (\<exists>s'. unregister_roots [''/tmp/x''] relative_root_state = Crash Null_watch_root s')
   \<and> None \<in> set (roots null_between_state)
   \<and> (\<exists>t'. check_missing_roots plain_env null_between_state = Crash Null_watch_root t')
   \<and> (\<exists>t'. check_root_removal ''/tmp/x'' null_between_state = Crash Null_watch_root t')
   \<and> (\<exists>t'. unregister_roots [''/tmp/x''] null_between_state = Crash Null_watch_root t')"
proof -
  have u: "update_roots plain_env [''build''] init_state = Ok True relative_root_state"
    using update_roots_relative_first [of plain_env "''build''"]
    by (simp add: plain_env_def relative_root_state_def init_state_def UNFLATTEN_def c_at_def)
  have r: "reachable relative_root_state"
    using reachable.update [OF reachable.start u] .
  have m: "IN_DELETE_SELF AND (IN_DELETE_SELF OR IN_MOVE_SELF) \<noteq> 0"
    by (simp add: IN_DELETE_SELF_def IN_MOVE_SELF_def)
  have n: "None \<in> set (roots null_between_state)"
    by (simp add: null_between_state_def)
  from roots_null_elements_fault [OF r, of plain_env "''/tmp/x''" IN_DELETE_SELF
      "[''/tmp/x'']" null_between_state] m n r
  show ?thesis by simp
qed

end
